theory Spec2Isabelle
  imports Main
begin

section \<open>Strings and JavaScript values\<close>

text \<open>
  The plugin is \<^verbatim>\<open>src/index.ts\<close>. JavaScript strings are modelled as HOL strings, so a
  character is one code unit below 256; this covers every character the three regular
  expressions of the source name explicitly. A value that may be \<^verbatim>\<open>undefined\<close> is an
  \<open>option\<close>, with \<open>None\<close> for \<^verbatim>\<open>undefined\<close>.
\<close>

definition starts_with :: "string \<Rightarrow> string \<Rightarrow> bool" where
  \<comment> \<open>\<^verbatim>\<open>s.startsWith(w)\<close>\<close>
  "starts_with s w = (take (length w) s = w)"

definition substr_from :: "string \<Rightarrow> nat \<Rightarrow> string" where
  \<comment> \<open>\<^verbatim>\<open>s.substr(n)\<close> for \<open>n \<ge> 0\<close>: the rest from index \<open>n\<close>, empty when \<open>n\<close> is past the end\<close>
  "substr_from s n = drop n s"

definition js_string :: "string option \<Rightarrow> string" where
  \<comment> \<open>what a template literal \<^verbatim>\<open>`${v}`\<close> prints for a string or \<^verbatim>\<open>undefined\<close>\<close>
  "js_string v = (case v of None \<Rightarrow> ''undefined'' | Some s \<Rightarrow> s)"

definition js_truthy :: "string option \<Rightarrow> bool" where
  \<comment> \<open>\<^verbatim>\<open>if (v)\<close> for a string or \<^verbatim>\<open>undefined\<close>: only a non-empty string passes\<close>
  "js_truthy v = (case v of None \<Rightarrow> False | Some s \<Rightarrow> s \<noteq> [])"

definition array_includes :: "string list \<Rightarrow> string option \<Rightarrow> bool" where
  \<comment> \<open>\<^verbatim>\<open>xs.includes(v)\<close> on an array of strings; \<^verbatim>\<open>undefined\<close> is never an element\<close>
  "array_includes xs v = (case v of None \<Rightarrow> False | Some s \<Rightarrow> List.member xs s)"

section \<open>Regular expressions\<close>

text \<open>
  The source decides everything by three regular-expression literals. They are kept as
  data and run by a backtracking matcher with the priorities of the ECMAScript
  specification: a sequence tries the results of its left part in order, an alternative
  tries its left branch first, a repetition is greedy and gives up an iteration that
  consumed nothing. A state is the position reached, the input left, and the captures
  made so far (latest first); \<open>ms r st\<close> lists the states after \<open>r\<close> in the order a
  backtracking engine would try them.
\<close>

datatype cls_item = CRange char char | CChar char | CWord

datatype rx =
    Lit string
  | AnyChar
  | Class "cls_item list"
  | Seq rx rx
  | Alt rx rx
  | Star rx
  | Group nat rx
  | Bol
  | Eol

type_synonym caps = "(nat \<times> string) list"
type_synonym mstate = "nat \<times> string \<times> caps"

definition char_between :: "char \<Rightarrow> char \<Rightarrow> char \<Rightarrow> bool" where
  "char_between lo hi c = ((of_char lo :: nat) \<le> of_char c \<and> (of_char c :: nat) \<le> of_char hi)"

definition word_char :: "char \<Rightarrow> bool" where
  \<comment> \<open>\<^verbatim>\<open>\w\<close> without the unicode flag: \<^verbatim>\<open>[A-Za-z0-9_]\<close>\<close>
  "word_char c = (char_between CHR ''a'' CHR ''z'' c \<or> char_between CHR ''A'' CHR ''Z'' c
                  \<or> char_between CHR ''0'' CHR ''9'' c \<or> c = CHR ''_'')"

fun in_item :: "cls_item \<Rightarrow> char \<Rightarrow> bool" where
  "in_item (CRange lo hi) c = char_between lo hi c"
| "in_item (CChar d) c = (c = d)"
| "in_item CWord c = word_char c"

definition in_class :: "cls_item list \<Rightarrow> char \<Rightarrow> bool" where
  "in_class items c = list_ex (\<lambda>i. in_item i c) items"

definition line_terminator :: "char \<Rightarrow> bool" where
  \<comment> \<open>the characters \<^verbatim>\<open>.\<close> refuses: line feed and carriage return (the two others,
      U+2028 and U+2029, are not characters of the model)\<close>
  "line_terminator c = (c = CHR 0x0A \<or> c = CHR 0x0D)"

function ms :: "rx \<Rightarrow> mstate \<Rightarrow> mstate list" where
  "ms (Lit w) (p, s, g) =
     (if starts_with s w then [(p + length w, drop (length w) s, g)] else [])"
| "ms AnyChar (p, s, g) =
     (case s of [] \<Rightarrow> [] | c # cs \<Rightarrow> if line_terminator c then [] else [(Suc p, cs, g)])"
| "ms (Class items) (p, s, g) =
     (case s of [] \<Rightarrow> [] | c # cs \<Rightarrow> if in_class items c then [(Suc p, cs, g)] else [])"
| "ms (Seq a b) (p, s, g) = concat (map (ms b) (ms a (p, s, g)))"
| "ms (Alt a b) (p, s, g) = ms a (p, s, g) @ ms b (p, s, g)"
| "ms (Star a) (p, s, g) =
     concat (map (\<lambda>st. if length (fst (snd st)) < length s then ms (Star a) st else [])
                 (ms a (p, s, g))) @ [(p, s, g)]"
| "ms (Group n a) (p, s, g) =
     map (\<lambda>(q, t, h). (q, t, (n, take (q - p) s) # h)) (ms a (p, s, g))"
| "ms Bol (p, s, g) = (if p = 0 then [(p, s, g)] else [])"
| "ms Eol (p, s, g) = (if s = [] then [(p, s, g)] else [])"
  by pat_completeness auto
termination
  by (relation "measures [\<lambda>(r, st). size r, \<lambda>(r, st). length (fst (snd st))]") auto

definition Plus :: "rx \<Rightarrow> rx" where
  \<comment> \<open>\<^verbatim>\<open>a+\<close> is \<^verbatim>\<open>a\<close> followed by \<^verbatim>\<open>a*\<close>\<close>
  "Plus a = Seq a (Star a)"

fun search :: "rx \<Rightarrow> nat \<Rightarrow> string \<Rightarrow> (string \<times> caps) option" where
  "search r p [] = (case ms r (p, [], []) of [] \<Rightarrow> None | (q, t, g) # _ \<Rightarrow> Some ([], g))"
| "search r p (c # cs) =
     (case ms r (p, c # cs, []) of
        [] \<Rightarrow> search r (Suc p) cs
      | (q, t, g) # _ \<Rightarrow> Some (take (q - p) (c # cs), g))"

definition exec :: "rx \<Rightarrow> string \<Rightarrow> (string \<times> caps) option" where
  \<comment> \<open>\<^verbatim>\<open>rx.exec(s)\<close> without the global flag: the leftmost start position that matches,
      with the matched text and the captures; \<open>None\<close> is \<^verbatim>\<open>null\<close>\<close>
  "exec r s = search r 0 s"

definition match_index :: "(string \<times> caps) option \<Rightarrow> nat \<Rightarrow> string option" where
  \<comment> \<open>element \<open>i\<close> of \<^verbatim>\<open>rx.exec(s) ?? []\<close>: the match at 0, capture \<open>i\<close> after it,
      \<^verbatim>\<open>undefined\<close> everywhere when there is no match\<close>
  "match_index m i =
     (case m of None \<Rightarrow> None
      | Some (whole, g) \<Rightarrow> if i = 0 then Some whole else map_of g i)"

definition matches :: "rx \<Rightarrow> string \<Rightarrow> bool" where
  \<comment> \<open>\<^verbatim>\<open>s.match(rx)\<close> used as a condition: an array is truthy, \<^verbatim>\<open>null\<close> is not\<close>
  "matches r s = (exec r s \<noteq> None)"

definition localeItems :: "cls_item list" where
  "localeItems = [CRange CHR ''A'' CHR ''Z'', CRange CHR ''a'' CHR ''z'',
                  CRange CHR ''0'' CHR ''9'', CChar CHR ''-'', CChar CHR ''_'']"

definition localeChars :: rx where
  \<comment> \<open>\<^verbatim>\<open>[A-Za-z0-9-_]\<close>\<close>
  "localeChars = Class localeItems"

definition extension :: rx where
  \<comment> \<open>\<^verbatim>\<open>(?:php|json)\<close>\<close>
  "extension = Alt (Lit ''php'') (Lit ''json'')"

definition rootRx :: rx where
  \<comment> \<open>\<^verbatim>\<open>/\.\/([A-Za-z0-9-_]+).(?:php|json)/\<close>\<close>
  "rootRx = Seq (Lit ''./'') (Seq (Group 1 (Plus localeChars)) (Seq AnyChar extension))"

definition scopedRx :: rx where
  \<comment> \<open>\<^verbatim>\<open>/\.\/([A-Za-z0-9-_]+)\/([A-Za-z0-9-_]+).(?:php|json)/\<close>\<close>
  "scopedRx = Seq (Lit ''./'') (Seq (Group 1 (Plus localeChars)) (Seq (Lit ''/'')
                (Seq (Group 2 (Plus localeChars)) (Seq AnyChar extension))))"

definition wordHyphenItems :: "cls_item list" where
  "wordHyphenItems = [CWord, CChar CHR ''-'']"

definition wordHyphen :: rx where
  \<comment> \<open>\<^verbatim>\<open>[\w-]\<close>\<close>
  "wordHyphen = Class wordHyphenItems"

definition dotSegment :: rx where
  \<comment> \<open>\<^verbatim>\<open>(?:\.[\w-]+)\<close>\<close>
  "dotSegment = Seq (Lit ''.'') (Plus wordHyphen)"

definition qualifiedRx :: rx where
  \<comment> \<open>\<^verbatim>\<open>/^[\w-]+(?:\.[\w-]+)+$/\<close>\<close>
  "qualifiedRx = Seq Bol (Seq (Plus wordHyphen) (Seq (Plus dotSegment) Eol))"

section \<open>The catalogue builder\<close>

text \<open>
  \<^verbatim>\<open>require.context\<close> gives the enumerated paths (\<^verbatim>\<open>files.keys()\<close>) and the parsed content
  of each (\<^verbatim>\<open>files(file)\<close>); the content type is left open. The catalogue is a JavaScript
  object used as a dictionary from \<^verbatim>\<open>locale.domain\<close> to content.

  The ignore list is declared \<^verbatim>\<open>Map<string, string[]>\<close> and read with
  \<^verbatim>\<open>Object.entries\<close>, which lists the own enumerable properties of its argument: the
  entries of a plain object, and nothing for a \<^verbatim>\<open>Map\<close>, whose entries are not properties.
  Both kinds of value are in the model.
\<close>

record 'c require_context =
  ctx_keys :: "string list"
  ctx_resolve :: "string \<Rightarrow> 'c"

type_synonym 'c Translations = "string \<rightharpoonup> 'c"

datatype ignore_list =
    IgnoreObject "(string \<times> string list) list"
  | IgnoreMap "(string \<times> string list) list"

fun object_entries :: "ignore_list \<Rightarrow> (string \<times> string list) list" where
  "object_entries (IgnoreObject es) = es"
| "object_entries (IgnoreMap es) = []"

fun ignore_loop :: "(string \<times> string list) list \<Rightarrow> string option \<Rightarrow> string option \<Rightarrow> bool" where
  "ignore_loop [] locale domain = False"
| "ignore_loop ((ignoreLocale, ignoreDomains) # rest) locale domain =
     (if locale = Some ignoreLocale \<and> array_includes ignoreDomains domain then True
      else ignore_loop rest locale domain)"

definition shouldIgnore :: "ignore_list \<Rightarrow> string option \<Rightarrow> string option \<Rightarrow> bool" where
  "shouldIgnore ignore locale domain = ignore_loop (object_entries ignore) locale domain"

definition import_file ::
  "'c require_context \<Rightarrow> ignore_list option \<Rightarrow> string option \<Rightarrow> 'c Translations \<Rightarrow> string \<Rightarrow> 'c Translations"
where
  \<comment> \<open>the body of the \<^verbatim>\<open>forEach\<close> callback of \<^verbatim>\<open>importTranslations\<close>\<close>
  "import_file files ignore globalTranslationsKey catalogue file =
     (let m = exec rootRx file; isGlobal = match_index m 0; rootLocale = match_index m 1 in
      if js_truthy isGlobal then
        catalogue(js_string rootLocale @ ''.'' @ js_string globalTranslationsKey
                    \<mapsto> ctx_resolve files file)
      else
        let n = exec scopedRx file; locale = match_index n 1; domain = match_index n 2 in
        if (case ignore of None \<Rightarrow> True | Some ig \<Rightarrow> \<not> shouldIgnore ig locale domain) then
          catalogue(js_string locale @ ''.'' @ js_string domain \<mapsto> ctx_resolve files file)
        else catalogue)"

definition importTranslations ::
  "'c require_context \<Rightarrow> ignore_list option \<Rightarrow> string option \<Rightarrow> 'c Translations"
where
  "importTranslations files ignore globalTranslationsKey =
     foldl (import_file files ignore globalTranslationsKey) Map.empty (ctx_keys files)"

section \<open>The plugin and its translation function\<close>

text \<open>
  \<^verbatim>\<open>install\<close> fills in the default global key, builds the options of the external
  translator and defines \<^verbatim>\<open>__\<close>. The translator of \<^verbatim>\<open>lang.js\<close> is external: it is a
  parameter \<open>Translator\<close> that turns its options into the \<^verbatim>\<open>get\<close> function, whose
  further arguments (replacements, locale) are passed on as they come.

  The options object is \<^verbatim>\<open>Partial<Options>\<close>: each property is either absent or given,
  and a property that is given may hold \<^verbatim>\<open>undefined\<close>. Reading \<^verbatim>\<open>options.x\<close> yields
  \<^verbatim>\<open>undefined\<close> in both of these cases, but an object spread \<^verbatim>\<open>{ x: d, ...options }\<close>
  keeps \<open>d\<close> only when \<^verbatim>\<open>x\<close> is absent from \<^verbatim>\<open>options\<close>: a given property overrides
  \<open>d\<close> with its value, \<^verbatim>\<open>undefined\<close> included. (\<^verbatim>\<open>null\<close> is not a value of the declared
  option types and is not in the model.)
\<close>

datatype 'a own_prop = Absent | Given "'a option"

definition prop_value :: "'a own_prop \<Rightarrow> 'a option" where
  \<comment> \<open>\<^verbatim>\<open>options.x\<close>\<close>
  "prop_value x = (case x of Absent \<Rightarrow> None | Given v \<Rightarrow> v)"

definition spread_over :: "'a option \<Rightarrow> 'a own_prop \<Rightarrow> 'a option" where
  \<comment> \<open>the value of \<^verbatim>\<open>x\<close> in \<^verbatim>\<open>{ x: d, ...options }\<close>\<close>
  "spread_over d x = (case x of Absent \<Rightarrow> d | Given v \<Rightarrow> v)"

record 'c options =
  opt_ignore :: "ignore_list own_prop"
  opt_globalTranslationsKey :: "string own_prop"
  opt_messages :: "'c Translations own_prop"
  opt_locale :: "string own_prop"
  opt_fallback :: "string own_prop"

record browser =
  document_lang :: string
  navigator_language :: string

record 'c lang_options =
  lang_fallback :: "string option"
  lang_messages :: "'c Translations option"
  lang_locale :: "string own_prop"
  lang_ignore :: "ignore_list own_prop"
  lang_globalTranslationsKey :: "string option"

definition default_options :: "'c options \<Rightarrow> 'c options" where
  \<comment> \<open>\<^verbatim>\<open>options = { globalTranslationsKey: '__global__', ...options }\<close>\<close>
  "default_options options =
     options\<lparr>opt_globalTranslationsKey :=
               Given (spread_over (Some ''__global__'') (opt_globalTranslationsKey options))\<rparr>"

definition install :: "browser \<Rightarrow> 'c require_context \<Rightarrow> 'c options \<Rightarrow> 'c lang_options" where
  \<comment> \<open>the object handed to \<^verbatim>\<open>new Translator\<close>:
      \<^verbatim>\<open>{ fallback: document.documentElement.lang || navigator.language,
         messages: options?.messages ?? importTranslations(options), ...options }\<close>\<close>
  "install env files options0 =
     (let options = default_options options0;
          fallback0 = (if document_lang env \<noteq> [] then document_lang env
                       else navigator_language env);
          messages0 =
             (case prop_value (opt_messages options) of
                Some msgs \<Rightarrow> msgs
              | None \<Rightarrow> importTranslations files (prop_value (opt_ignore options))
                          (prop_value (opt_globalTranslationsKey options)))
      in \<lparr> lang_fallback = spread_over (Some fallback0) (opt_fallback options),
           lang_messages = spread_over (Some messages0) (opt_messages options),
           lang_locale = opt_locale options,
           lang_ignore = opt_ignore options,
           lang_globalTranslationsKey = prop_value (opt_globalTranslationsKey options) \<rparr>)"

definition strip_global :: "string \<Rightarrow> string \<Rightarrow> string" where
  \<comment> \<open>the last statement of \<^verbatim>\<open>__\<close>\<close>
  "strip_global globalTranslationsKey result =
     (if starts_with result globalTranslationsKey
      then substr_from result (length globalTranslationsKey + 1)
      else result)"

definition translate :: "(string \<Rightarrow> 'a \<Rightarrow> string) \<Rightarrow> string \<Rightarrow> string \<Rightarrow> 'a \<Rightarrow> string" where
  \<comment> \<open>\<^verbatim>\<open>__\<close>, over the translator's \<^verbatim>\<open>get\<close> and the global key of the options\<close>
  "translate get globalTranslationsKey key args =
     (if matches qualifiedRx key then get key args
      else strip_global globalTranslationsKey (get (globalTranslationsKey @ ''.'' @ key) args))"

text \<open>
  The \<^verbatim>\<open>__\<close> that \<^verbatim>\<open>install\<close> registers reads the global key from the options after the
  default. When that key is \<^verbatim>\<open>undefined\<close> (given so by the caller), the template literal
  and \<^verbatim>\<open>startsWith\<close> print it as \<^verbatim>\<open>undefined\<close>, and reading its \<^verbatim>\<open>length\<close> throws.
\<close>

datatype js_error = TypeError

definition install_translate ::
  "('c lang_options \<Rightarrow> string \<Rightarrow> 'a \<Rightarrow> string) \<Rightarrow> browser \<Rightarrow> 'c require_context \<Rightarrow> 'c options
     \<Rightarrow> string \<Rightarrow> 'a \<Rightarrow> js_error + string"
where
  "install_translate Translator env files options0 key args =
     (let i18n = install env files options0; get = Translator i18n in
      case lang_globalTranslationsKey i18n of
        Some globalTranslationsKey \<Rightarrow> Inr (translate get globalTranslationsKey key args)
      | None \<Rightarrow>
          if matches qualifiedRx key then Inr (get key args)
          else let result = get (js_string None @ ''.'' @ key) args in
               if starts_with result (js_string None) then Inl TypeError else Inr result)"

section \<open>Notions used in the statements\<close>

text \<open>
  The shapes of the specification: a locale or domain name is one or more characters of
  \<^verbatim>\<open>[A-Za-z0-9-_]\<close>, an extension is \<^verbatim>\<open>php\<close> or \<^verbatim>\<open>json\<close>. A root-level path is
  \<open>''./'' @ X @ ''.'' @ e\<close> and a scoped path \<open>''./'' @ L @ ''/'' @ D @ ''.'' @ e\<close>.
\<close>

definition locale_name :: "string \<Rightarrow> bool" where
  "locale_name s = (s \<noteq> [] \<and> list_all (in_class localeItems) s)"

definition is_extension :: "string \<Rightarrow> bool" where
  "is_extension e = (e = ''php'' \<or> e = ''json'')"

text \<open>
  The pair \<open>(L, D)\<close> is present in the ignore list: some entry of the mapping has locale
  \<open>L\<close> and lists domain \<open>D\<close>. This follows the specification's words and does not look
  at how the value is stored.
\<close>

definition listed :: "ignore_list option \<Rightarrow> string \<Rightarrow> string \<Rightarrow> bool" where
  "listed ignore L D =
     (case ignore of
        None \<Rightarrow> False
      | Some (IgnoreObject es) \<Rightarrow> list_ex (\<lambda>(l, ds). l = L \<and> List.member ds D) es
      | Some (IgnoreMap es) \<Rightarrow> list_ex (\<lambda>(l, ds). l = L \<and> List.member ds D) es)"

text \<open>
  \<open>entry_key\<close> is the key under which the callback stores a file, if it stores it: the
  branches of \<open>import_file\<close> without the catalogue (lemma \<open>import_file_entry\<close>). A file
  is classified to key \<open>k\<close> when \<open>entry_key\<close> gives \<open>Some k\<close>. \<open>last_writer\<close> is the
  last enumerated file classified to a key.
\<close>

definition entry_key :: "ignore_list option \<Rightarrow> string option \<Rightarrow> string \<Rightarrow> string option" where
  "entry_key ignore globalTranslationsKey file =
     (let m = exec rootRx file in
      if js_truthy (match_index m 0) then
        Some (js_string (match_index m 1) @ ''.'' @ js_string globalTranslationsKey)
      else
        let n = exec scopedRx file; locale = match_index n 1; domain = match_index n 2 in
        if (case ignore of None \<Rightarrow> True | Some ig \<Rightarrow> \<not> shouldIgnore ig locale domain)
        then Some (js_string locale @ ''.'' @ js_string domain)
        else None)"

definition last_writer ::
  "ignore_list option \<Rightarrow> string option \<Rightarrow> string list \<Rightarrow> string \<Rightarrow> string option"
where
  "last_writer ignore g keys k =
     (case rev (filter (\<lambda>f. entry_key ignore g f = Some k) keys) of
        [] \<Rightarrow> None
      | f # _ \<Rightarrow> Some f)"

text \<open>\<open>leads r st y\<close>: the first state a backtracking run of \<open>r\<close> from \<open>st\<close> reaches is \<open>y\<close>.\<close>

definition leads :: "rx \<Rightarrow> mstate \<Rightarrow> mstate \<Rightarrow> bool" where
  "leads r st y = (\<exists>ys. ms r st = y # ys)"

text \<open>
  The qualified-key shape in the specification's words: split at the dots, the key has
  two or more segments, each of one or more word or hyphen characters. It is compared
  with \<open>qualifiedRx\<close> in lemma \<open>matches_qualifiedRx\<close>.
\<close>

fun split_on :: "char \<Rightarrow> string \<Rightarrow> string list" where
  "split_on d [] = [[]]"
| "split_on d (c # cs) =
     (if c = d then [] # split_on d cs
      else (case split_on d cs of [] \<Rightarrow> [[c]] | y # ys \<Rightarrow> (c # y) # ys))"

definition segment_ok :: "string \<Rightarrow> bool" where
  "segment_ok seg = (seg \<noteq> [] \<and> list_all (in_class wordHyphenItems) seg)"

definition qualified_key_shape :: "string \<Rightarrow> bool" where
  "qualified_key_shape key =
     (let segs = split_on CHR ''.'' key in 2 \<le> length segs \<and> list_all segment_ok segs)"

text \<open>\<open>reaches_end r st\<close>: some run of \<open>r\<close> from \<open>st\<close> consumes the whole input.\<close>

definition reaches_end :: "rx \<Rightarrow> mstate \<Rightarrow> bool" where
  "reaches_end r st = list_ex (\<lambda>y. fst (snd y) = []) (ms r st)"

text \<open>
  A translator for the examples: \<^verbatim>\<open>get\<close> looks the full key up in a table and, as
  \<^verbatim>\<open>lang.js\<close> does on a miss, returns the key itself.
\<close>

definition table_get :: "(string \<times> string) list \<Rightarrow> string \<Rightarrow> unit \<Rightarrow> string" where
  "table_get table key args = (case map_of table key of None \<Rightarrow> key | Some text \<Rightarrow> text)"

text \<open>\<open>has_dot_slash s\<close>: the text \<^verbatim>\<open>./\<close> occurs somewhere in \<open>s\<close>.\<close>

fun has_dot_slash :: "string \<Rightarrow> bool" where
  "has_dot_slash [] = False"
| "has_dot_slash (c # cs) = (starts_with (c # cs) ''./'' \<or> has_dot_slash cs)"

section \<open>The matcher on character classes\<close>

lemma rev_upt_Suc_shift: "map f (rev [0..<Suc (Suc n)]) = map (\<lambda>k. f (Suc k)) (rev [0..<Suc n]) @ [f 0]"
proof -
  have "[0..<Suc (Suc n)] = 0 # map Suc [0..<Suc n]"
    by (simp add: upt_conv_Cons map_Suc_upt del: upt_Suc)
  then show ?thesis by (simp add: rev_map o_def del: upt_Suc)
qed

lemma ms_Star_Class:
  "ms (Star (Class I)) (p, s, g) =
     map (\<lambda>k. (p + k, drop k s, g)) (rev [0..<Suc (length (takeWhile (in_class I) s))])"
proof (induction s arbitrary: p)
  case Nil
  show ?case by simp
next
  case (Cons c cs)
  show ?case
  proof (cases "in_class I c")
    case True
    then show ?thesis
      using Cons.IH [of "Suc p"]
      by (simp add: rev_upt_Suc_shift del: upt_Suc)
  next
    case False
    then show ?thesis by simp
  qed
qed

lemma ms_Plus_Class:
  "ms (Plus (Class I)) (p, s, g) =
     map (\<lambda>k. (p + k, drop k s, g)) (rev [1..<Suc (length (takeWhile (in_class I) s))])"
proof (cases s)
  case Nil
  then show ?thesis by (simp add: Plus_def)
next
  case (Cons c cs)
  show ?thesis
  proof (cases "in_class I c")
    case True
    have "[1..<Suc (Suc (length (takeWhile (in_class I) cs)))] = map Suc [0..<Suc (length (takeWhile (in_class I) cs))]"
      by (simp add: map_Suc_upt del: upt_Suc)
    with True Cons show ?thesis
      by (simp add: Plus_def ms_Star_Class rev_map o_def del: upt_Suc ms.simps(6))
  next
    case False
    with Cons show ?thesis by (simp add: Plus_def)
  qed
qed

section \<open>The path patterns on root-level and scoped paths\<close>

lemma leads_Seq: "leads a st x \<Longrightarrow> leads b x y \<Longrightarrow> leads (Seq a b) st y"
  by (cases st) (auto simp: leads_def)

lemma leads_Group:
  "leads a (p, s, g) (q, t, h) \<Longrightarrow> leads (Group n a) (p, s, g) (q, t, (n, take (q - p) s) # h)"
  by (auto simp: leads_def)

lemma leads_Lit: "leads (Lit w) (p, w @ s, g) (p + length w, s, g)"
  by (simp add: leads_def starts_with_def)

lemma leads_AnyChar: "\<not> line_terminator c \<Longrightarrow> leads AnyChar (p, c # s, g) (Suc p, s, g)"
  by (simp add: leads_def)

lemma leads_extension: "is_extension e \<Longrightarrow> leads extension (p, e @ s, g) (p + length e, s, g)"
  by (auto simp: leads_def extension_def is_extension_def starts_with_def)

lemma leads_Plus_Class:
  assumes "a \<noteq> []" "list_all (in_class I) a" "s = [] \<or> \<not> in_class I (hd s)"
  shows "leads (Plus (Class I)) (p, a @ s, g) (p + length a, s, g)"
proof -
  have tw: "takeWhile (in_class I) (a @ s) = a"
    using assms(2,3) by (cases s) (auto simp: list_all_iff)
  have "[1..<Suc (length a)] = [1..<length a] @ [length a]"
    using assms(1) by (cases a) auto
  then show ?thesis
    unfolding leads_def ms_Plus_Class tw by simp
qed

lemma search_leads:
  "leads r (p, c # cs, []) (q, t, g) \<Longrightarrow> search r p (c # cs) = Some (take (q - p) (c # cs), g)"
  by (auto simp: leads_def)

lemma dot_not_locale: "\<not> in_class localeItems CHR ''.''"
  by (simp add: localeItems_def in_class_def char_between_def)

lemma slash_not_locale: "\<not> in_class localeItems CHR ''/''"
  by (simp add: localeItems_def in_class_def char_between_def)

lemma exec_rootRx_root:
  assumes "locale_name X" "is_extension e"
  shows "exec rootRx (''./'' @ X @ ''.'' @ e) = Some (''./'' @ X @ ''.'' @ e, [(1, X)])"
proof -
  let ?rest = "CHR ''.'' # e"
  let ?p = "Suc (Suc 0)"
  let ?q = "Suc (?p + length X)"
  have 1: "leads (Lit ''./'') (0, ''./'' @ X @ ?rest, []) (?p, X @ ?rest, [])"
    using leads_Lit [of "''./''" 0 "X @ ?rest" "[]"] by simp
  have 2: "leads (Plus localeChars) (?p, X @ ?rest, []) (?p + length X, ?rest, [])"
    unfolding localeChars_def
    using assms(1) by (intro leads_Plus_Class) (simp_all add: locale_name_def dot_not_locale)
  have 3: "leads (Group 1 (Plus localeChars)) (?p, X @ ?rest, []) (?p + length X, ?rest, [(1, X)])"
    using leads_Group [OF 2, of 1] by simp
  have 4: "leads AnyChar (?p + length X, ?rest, [(1, X)]) (?q, e, [(1, X)])"
    by (intro leads_AnyChar) (simp add: line_terminator_def)
  have 5: "leads extension (?q, e, [(1, X)]) (?q + length e, [], [(1, X)])"
    using leads_extension [OF assms(2), of ?q "[]"] by simp
  have "leads rootRx (0, ''./'' @ X @ ?rest, []) (?q + length e, [], [(1, X)])"
    unfolding rootRx_def by (rule leads_Seq [OF 1 leads_Seq [OF 3 leads_Seq [OF 4 5]]])
  then have "search rootRx 0 (CHR ''.'' # CHR ''/'' # X @ ?rest)
               = Some (take (?q + length e - 0) (CHR ''.'' # CHR ''/'' # X @ ?rest), [(1, X)])"
    by (intro search_leads) simp
  then show ?thesis by (simp add: exec_def)
qed

lemma exec_scopedRx_scoped:
  assumes "locale_name L" "locale_name D" "is_extension e"
  shows "exec scopedRx (''./'' @ L @ ''/'' @ D @ ''.'' @ e)
           = Some (''./'' @ L @ ''/'' @ D @ ''.'' @ e, [(2, D), (1, L)])"
proof -
  let ?r2 = "CHR ''.'' # e"
  let ?r1 = "CHR ''/'' # D @ ?r2"
  let ?p = "Suc (Suc 0)"
  let ?q = "Suc (?p + length L)"
  let ?u = "Suc (?q + length D)"
  let ?g = "[(2, D), (1, L)]"
  have 1: "leads (Lit ''./'') (0, ''./'' @ L @ ?r1, []) (?p, L @ ?r1, [])"
    using leads_Lit [of "''./''" 0 "L @ ?r1" "[]"] by simp
  have 2: "leads (Plus localeChars) (?p, L @ ?r1, []) (?p + length L, ?r1, [])"
    unfolding localeChars_def
    using assms(1) by (intro leads_Plus_Class) (simp_all add: locale_name_def slash_not_locale)
  have 3: "leads (Group 1 (Plus localeChars)) (?p, L @ ?r1, []) (?p + length L, ?r1, [(1, L)])"
    using leads_Group [OF 2, of 1] by simp
  have 4: "leads (Lit ''/'') (?p + length L, ?r1, [(1, L)]) (?q, D @ ?r2, [(1, L)])"
    using leads_Lit [of "''/''" "?p + length L" "D @ ?r2" "[(1, L)]"] by simp
  have 5: "leads (Plus localeChars) (?q, D @ ?r2, [(1, L)]) (?q + length D, ?r2, [(1, L)])"
    unfolding localeChars_def
    using assms(2) by (intro leads_Plus_Class) (simp_all add: locale_name_def dot_not_locale)
  have 6: "leads (Group 2 (Plus localeChars)) (?q, D @ ?r2, [(1, L)]) (?q + length D, ?r2, ?g)"
    using leads_Group [OF 5, of 2] by simp
  have 7: "leads AnyChar (?q + length D, ?r2, ?g) (?u, e, ?g)"
    by (intro leads_AnyChar) (simp add: line_terminator_def)
  have 8: "leads extension (?u, e, ?g) (?u + length e, [], ?g)"
    using leads_extension [OF assms(3), of ?u "[]"] by simp
  have "leads scopedRx (0, ''./'' @ L @ ?r1, []) (?u + length e, [], ?g)"
    unfolding scopedRx_def
    by (rule leads_Seq [OF 1 leads_Seq [OF 3 leads_Seq [OF 4 leads_Seq [OF 6 leads_Seq [OF 7 8]]]]])
  then have "search scopedRx 0 (CHR ''.'' # CHR ''/'' # L @ ?r1)
               = Some (take (?u + length e - 0) (CHR ''.'' # CHR ''/'' # L @ ?r1), ?g)"
    by (intro search_leads) simp
  then show ?thesis by (simp add: exec_def)
qed

section \<open>The catalogue as the last writer of each key\<close>

lemma import_file_entry:
  "import_file files ignore g catalogue file =
     (case entry_key ignore g file of
        None \<Rightarrow> catalogue
      | Some k \<Rightarrow> catalogue(k \<mapsto> ctx_resolve files file))"
  by (simp add: import_file_def entry_key_def Let_def)

lemma foldl_import_file:
  "foldl (import_file files ignore g) catalogue keys k =
     (case last_writer ignore g keys k of
        None \<Rightarrow> catalogue k
      | Some f \<Rightarrow> Some (ctx_resolve files f))"
proof (induction keys rule: rev_induct)
  case Nil
  show ?case by (simp add: last_writer_def)
next
  case (snoc f fs)
  show ?case
  proof (cases "entry_key ignore g f = Some k")
    case True
    then show ?thesis by (simp add: import_file_entry last_writer_def)
  next
    case False
    then have "last_writer ignore g (fs @ [f]) k = last_writer ignore g fs k"
      by (simp add: last_writer_def)
    with False snoc show ?thesis
      by (simp add: import_file_entry split: option.splits)
  qed
qed

lemma importTranslations_last_writer:
  "importTranslations files ignore g k =
     map_option (ctx_resolve files) (last_writer ignore g (ctx_keys files) k)"
  by (simp add: importTranslations_def foldl_import_file split: option.splits)

lemma last_writer_append:
  "last_writer ignore g (xs @ ys) k =
     (case last_writer ignore g ys k of None \<Rightarrow> last_writer ignore g xs k | Some f \<Rightarrow> Some f)"
  by (simp add: last_writer_def split: list.splits)

lemma last_writer_none:
  "(last_writer ignore g keys k = None) = (\<forall>f \<in> set keys. entry_key ignore g f \<noteq> Some k)"
proof -
  have "(rev (filter (\<lambda>f. entry_key ignore g f = Some k) keys) = [])
          = (\<forall>f \<in> set keys. entry_key ignore g f \<noteq> Some k)"
    by (simp add: filter_empty_conv)
  then show ?thesis
    by (cases "rev (filter (\<lambda>f. entry_key ignore g f = Some k) keys)")
       (simp_all add: last_writer_def)
qed

lemma last_writer_Cons:
  "last_writer ignore g (f # fs) k =
     (case last_writer ignore g fs k of
        None \<Rightarrow> if entry_key ignore g f = Some k then Some f else None
      | Some f' \<Rightarrow> Some f')"
  using last_writer_append [of ignore g "[f]" fs k]
  by (simp add: last_writer_def split: option.splits list.splits)

lemma ignore_loop_listed:
  "ignore_loop es (Some L) (Some D) = list_ex (\<lambda>(l, ds). l = L \<and> List.member ds D) es"
  by (induction es) (auto simp: array_includes_def split: if_splits)

lemma shouldIgnore_object:
  "shouldIgnore (IgnoreObject es) (Some L) (Some D) = listed (Some (IgnoreObject es)) L D"
  by (simp add: shouldIgnore_def listed_def ignore_loop_listed)

lemma entry_key_root:
  assumes "locale_name X" "is_extension e"
  shows "entry_key ignore g (''./'' @ X @ ''.'' @ e) = Some (X @ ''.'' @ js_string g)"
  using exec_rootRx_root [OF assms]
  by (simp add: entry_key_def match_index_def js_truthy_def js_string_def)

lemma entry_key_scoped:
  assumes "locale_name L" "locale_name D" "is_extension e"
    and "exec rootRx (''./'' @ L @ ''/'' @ D @ ''.'' @ e) = None"
  shows "entry_key ignore g (''./'' @ L @ ''/'' @ D @ ''.'' @ e) =
           (if (case ignore of None \<Rightarrow> True | Some ig \<Rightarrow> \<not> shouldIgnore ig (Some L) (Some D))
            then Some (L @ ''.'' @ D) else None)"
  using exec_scopedRx_scoped [OF assms(1,2,3)] assms(4)
  by (simp add: entry_key_def match_index_def js_truthy_def js_string_def)

lemma entry_key_unmatched:
  assumes "exec rootRx file = None" "exec scopedRx file = None"
  shows "entry_key ignore g file = Some ''undefined.undefined''"
proof -
  have "\<not> ignore_loop es None None" for es
    by (induction es) auto
  then show ?thesis using assms
    by (simp add: entry_key_def match_index_def js_truthy_def js_string_def shouldIgnore_def
             split: option.splits)
qed

section \<open>Captures of the path patterns on any input\<close>

lemma set_ms_Seq: "set (ms (Seq a b) st) = (\<Union>x \<in> set (ms a st). set (ms b x))"
  by (cases st) auto

lemma set_ms_Plus_Class:
  "set (ms (Plus (Class I)) (p, s, g)) =
     (\<lambda>k. (p + k, drop k s, g)) ` {1..length (takeWhile (in_class I) s)}"
  unfolding ms_Plus_Class by (auto simp del: upt_Suc)

lemma take_takeWhile_all:
  "k \<le> length (takeWhile P s) \<Longrightarrow> list_all P (take k s)"
proof -
  assume k: "k \<le> length (takeWhile P s)"
  have "take k s = take k (takeWhile P s)"
    by (metis k append_eq_conv_conj append_take_drop_id takeWhile_dropWhile_id take_append
              diff_is_0_eq' take_0 append_Nil2)
  then have "set (take k s) \<subseteq> set (takeWhile P s)"
    by (simp add: set_take_subset)
  then show ?thesis
    by (auto simp: list_all_iff dest: set_takeWhileD)
qed

lemma locale_group_caps:
  assumes "(q, t, h) \<in> set (ms (Group n (Plus localeChars)) (p, s, g))"
  shows "\<exists>w. h = (n, w) # g \<and> locale_name w"
proof -
  from assms obtain k where k: "1 \<le> k" "k \<le> length (takeWhile (in_class localeItems) s)"
    and h: "h = (n, take k s) # g"
    by (auto simp: localeChars_def set_ms_Plus_Class simp del: ms.simps(4))
  have "length (takeWhile (in_class localeItems) s) \<le> length s"
    by (rule length_takeWhile_le)
  with k have "take k s \<noteq> []" by auto
  with take_takeWhile_all [OF k(2)] h show ?thesis
    by (auto simp: locale_name_def)
qed

lemma tail_caps:
  assumes "(q, t, h) \<in> set (ms (Seq AnyChar extension) (p, s, g))"
  shows "h = g"
  using assms by (auto simp: extension_def split: list.splits if_splits)

lemma search_result:
  "search r p s = Some (w, h) \<Longrightarrow> \<exists>p' s' q t. (q, t, h) \<in> set (ms r (p', s', []))"
proof (induction s arbitrary: p)
  case Nil
  then show ?case
    by (auto split: list.splits) (metis list.set_intros(1))
next
  case (Cons c cs)
  show ?case
  proof (cases "ms r (p, c # cs, [])")
    case Nil
    with Cons show ?thesis by simp
  next
    case (Cons x xs)
    obtain q t g where x: "x = (q, t, g)" by (cases x)
    with Cons Cons.prems have "g = h" by simp
    with x Cons show ?thesis by (metis list.set_intros(1))
  qed
qed

lemma rootRx_caps:
  assumes "exec rootRx file = Some (w, h)"
  shows "\<exists>X. h = [(1, X)] \<and> locale_name X"
proof -
  from assms obtain p s q t where "(q, t, h) \<in> set (ms rootRx (p, s, []))"
    unfolding exec_def by (blast dest: search_result)
  then obtain st1 st2 where 1: "st1 \<in> set (ms (Lit ''./'') (p, s, []))"
    and 2: "st2 \<in> set (ms (Group 1 (Plus localeChars)) st1)"
    and 3: "(q, t, h) \<in> set (ms (Seq AnyChar extension) st2)"
    unfolding rootRx_def set_ms_Seq by blast
  obtain p1 s1 where st1: "st1 = (p1, s1, [])"
    using 1 by (auto split: if_splits)
  obtain p2 s2 g2 where st2: "st2 = (p2, s2, g2)" by (cases st2)
  from locale_group_caps [of p2 s2 g2 1 p1 s1 "[]"] 2 st1 st2
  obtain X where "g2 = [(1, X)]" "locale_name X" by auto
  moreover from tail_caps [of q t h p2 s2 g2] 3 st2 have "h = g2" by simp
  ultimately show ?thesis by simp
qed

lemma scopedRx_caps:
  assumes "exec scopedRx file = Some (w, h)"
  shows "\<exists>L D. h = [(2, D), (1, L)] \<and> locale_name L \<and> locale_name D"
proof -
  from assms obtain p s q t where "(q, t, h) \<in> set (ms scopedRx (p, s, []))"
    unfolding exec_def by (blast dest: search_result)
  then obtain st1 st2 st3 st4 where 1: "st1 \<in> set (ms (Lit ''./'') (p, s, []))"
    and 2: "st2 \<in> set (ms (Group 1 (Plus localeChars)) st1)"
    and 3: "st3 \<in> set (ms (Lit ''/'') st2)"
    and 4: "st4 \<in> set (ms (Group 2 (Plus localeChars)) st3)"
    and 5: "(q, t, h) \<in> set (ms (Seq AnyChar extension) st4)"
    unfolding scopedRx_def set_ms_Seq by blast
  obtain p1 s1 where st1: "st1 = (p1, s1, [])"
    using 1 by (auto split: if_splits)
  obtain p2 s2 g2 where st2: "st2 = (p2, s2, g2)" by (cases st2)
  from locale_group_caps [of p2 s2 g2 1 p1 s1 "[]"] 2 st1 st2
  obtain L where L: "g2 = [(1, L)]" "locale_name L" by auto
  obtain p3 s3 where st3: "st3 = (p3, s3, g2)"
    using 3 st2 by (auto split: if_splits)
  obtain p4 s4 g4 where st4: "st4 = (p4, s4, g4)" by (cases st4)
  from locale_group_caps [of p4 s4 g4 2 p3 s3 g2] 4 st3 st4
  obtain D where D: "g4 = (2, D) # g2" "locale_name D" by auto
  from tail_caps [of q t h p4 s4 g4] 5 st4 have "h = g4" by simp
  with L D show ?thesis by simp
qed

lemma js_string_simps [simp]: "js_string (Some x) = x" "js_string None = ''undefined''"
  by (simp_all add: js_string_def)

lemma dot_free: "locale_name A \<Longrightarrow> CHR ''.'' \<notin> set A"
  using dot_not_locale by (auto simp: locale_name_def list_all_iff)

lemma key_split:
  assumes "CHR ''.'' \<notin> set A" "CHR ''.'' \<notin> set A'" "A @ ''.'' @ B = A' @ ''.'' @ B'"
  shows "A = A' \<and> B = B'"
proof -
  have "takeWhile (\<lambda>c. c \<noteq> CHR ''.'') (A @ ''.'' @ B) = A"
    using assms(1) by (auto simp: takeWhile_tail)
  moreover have "takeWhile (\<lambda>c. c \<noteq> CHR ''.'') (A' @ ''.'' @ B') = A'"
    using assms(2) by (auto simp: takeWhile_tail)
  ultimately have "A = A'" using assms(3) by simp
  with assms(3) show ?thesis by simp
qed

lemma entry_key_cases:
  assumes "entry_key ignore g f = Some k"
  shows "(\<exists>X. locale_name X \<and> k = X @ ''.'' @ js_string g)
       \<or> (\<exists>L D. locale_name L \<and> locale_name D \<and> k = L @ ''.'' @ D
                \<and> (case ignore of None \<Rightarrow> True | Some ig \<Rightarrow> \<not> shouldIgnore ig (Some L) (Some D)))
       \<or> k = ''undefined.undefined''"
proof (cases "js_truthy (match_index (exec rootRx f) 0)")
  case True
  then obtain w h where m: "exec rootRx f = Some (w, h)"
    by (cases "exec rootRx f") (auto simp: js_truthy_def match_index_def)
  from rootRx_caps [OF m] obtain X where "h = [(1, X)]" "locale_name X" by blast
  with True m assms show ?thesis
    by (auto simp: entry_key_def match_index_def Let_def)
next
  case False
  show ?thesis
  proof (cases "exec scopedRx f")
    case None
    with False assms show ?thesis
      by (auto simp: entry_key_def match_index_def Let_def split: if_splits)
  next
    case (Some a)
    obtain w h where a: "a = (w, h)" by (cases a)
    from scopedRx_caps [of f w h] Some a
    obtain L D where h: "h = [(2, D), (1, L)]" and LD: "locale_name L" "locale_name D" by blast
    have mi: "match_index (exec scopedRx f) 1 = Some L" "match_index (exec scopedRx f) 2 = Some D"
      using Some a h by (simp_all add: match_index_def)
    from assms False
    have "(case ignore of None \<Rightarrow> True | Some ig \<Rightarrow> \<not> shouldIgnore ig (Some L) (Some D))
            \<and> k = L @ ''.'' @ D"
      unfolding entry_key_def Let_def mi by (simp split: if_splits)
    with LD show ?thesis by blast
  qed
qed

lemma locale_name_undefined: "locale_name ''undefined''"
  by (simp add: locale_name_def localeItems_def in_class_def char_between_def)

lemma listed_never_assigned:
  assumes "locale_name L" "locale_name D"
    and "listed (Some (IgnoreObject es)) L D"
    and "js_string g \<noteq> D"
    and "\<not> (L = ''undefined'' \<and> D = ''undefined'')"
  shows "entry_key (Some (IgnoreObject es)) g f \<noteq> Some (L @ ''.'' @ D)"
proof
  assume "entry_key (Some (IgnoreObject es)) g f = Some (L @ ''.'' @ D)"
  from entry_key_cases [OF this]
  consider (root) X where "locale_name X" "L @ ''.'' @ D = X @ ''.'' @ js_string g"
    | (scoped) L' D' where "locale_name L'" "locale_name D'" "L @ ''.'' @ D = L' @ ''.'' @ D'"
        "\<not> shouldIgnore (IgnoreObject es) (Some L') (Some D')"
    | (unmatched) "L @ ''.'' @ D = ''undefined.undefined''"
    by auto
  then show False
  proof cases
    case root
    from key_split [OF dot_free [OF assms(1)] dot_free [OF root(1)] root(2)] assms(4)
    show False by simp
  next
    case scoped
    from key_split [OF dot_free [OF assms(1)] dot_free [OF scoped(1)] scoped(3)]
    have "L' = L" "D' = D" by simp_all
    with scoped(4) assms(3) show False by (simp add: shouldIgnore_object)
  next
    case unmatched
    then have "L @ ''.'' @ D = ''undefined'' @ ''.'' @ ''undefined''" by simp
    from key_split [OF dot_free [OF assms(1)] dot_free [OF locale_name_undefined] this] assms(5)
    show False by simp
  qed
qed

section \<open>The root-level pattern on scoped paths\<close>

text \<open>
  The root-level pattern is not anchored at the end and its dot before the extension
  matches any character, so it also accepts some scoped paths: those where \<^verbatim>\<open>php\<close> or
  \<^verbatim>\<open>json\<close> begins in \<^verbatim>\<open>L/D\<close> at the third character of \<open>L\<close> or later, and no later than
  the first character of \<open>D\<close> (lemma \<open>rootRx_on_scoped_path\<close>), as in \<^verbatim>\<open>./en/php.json\<close>
  or \<^verbatim>\<open>./en-php/auth.json\<close>. Such a path is stored as root-level.
\<close>

lemma rootRx_needs_dot_slash: "\<not> starts_with s ''./'' \<Longrightarrow> ms rootRx (p, s, g) = []"
  by (simp add: rootRx_def)

lemma search_rootRx_none: "\<not> has_dot_slash s \<Longrightarrow> search rootRx p s = None"
proof (induction s arbitrary: p)
  case Nil
  have "\<not> starts_with [] ''./''" by (simp add: starts_with_def)
  then show ?case by (simp add: rootRx_needs_dot_slash del: ms.simps)
next
  case (Cons c cs)
  then show ?case by (simp add: rootRx_needs_dot_slash del: ms.simps)
qed

lemma has_dot_slash_append:
  "CHR ''.'' \<notin> set a \<Longrightarrow> has_dot_slash (a @ b) = has_dot_slash b"
  by (induction a) (auto simp: starts_with_def)

lemma no_dot_slash_after_start:
  assumes "locale_name L" "locale_name D" "is_extension e"
  shows "\<not> has_dot_slash (''/'' @ L @ ''/'' @ D @ ''.'' @ e)"
proof -
  have "CHR ''.'' \<notin> set (''/'' @ L @ ''/'' @ D)"
    using dot_free [OF assms(1)] dot_free [OF assms(2)] by simp
  then have "has_dot_slash ((''/'' @ L @ ''/'' @ D) @ ''.'' @ e) = has_dot_slash (''.'' @ e)"
    by (rule has_dot_slash_append)
  moreover have "\<not> has_dot_slash (''.'' @ e)"
    using assms(3) by (auto simp: is_extension_def starts_with_def)
  ultimately show ?thesis by simp
qed

lemma tail_nonempty:
  "(ms (Seq AnyChar extension) (q, u, h) \<noteq> []) =
     (case u of [] \<Rightarrow> False
      | c # v \<Rightarrow> \<not> line_terminator c \<and> (starts_with v ''php'' \<or> starts_with v ''json''))"
  by (cases u) (auto simp: extension_def)

lemma locale_not_terminator: "in_class localeItems c \<Longrightarrow> \<not> line_terminator c"
  by (auto simp: localeItems_def in_class_def char_between_def line_terminator_def)

lemma set_ms_Group_Plus_Class:
  "set (ms (Group n (Plus (Class I))) (p, s, g)) =
     (\<lambda>k. (p + k, drop k s, (n, take k s) # g)) ` {1..length (takeWhile (in_class I) s)}"
proof -
  have "set (ms (Group n (Plus (Class I))) (p, s, g)) =
          (\<lambda>(q, t, h). (q, t, (n, take (q - p) s) # h)) ` set (ms (Plus (Class I)) (p, s, g))"
    by (simp only: ms.simps(7) set_map)
  then show ?thesis
    by (simp only: set_ms_Plus_Class image_image split_conv add_diff_cancel_left')
qed

lemma rootRx_on_scoped_path:
  assumes "locale_name L" "locale_name D" "is_extension e"
  shows "(exec rootRx (''./'' @ L @ ''/'' @ D @ ''.'' @ e) \<noteq> None) =
           (\<exists>k \<in> {1..length L}.
               starts_with (drop (Suc k) (L @ ''/'' @ D @ ''.'' @ e)) ''php''
             \<or> starts_with (drop (Suc k) (L @ ''/'' @ D @ ''.'' @ e)) ''json'')"
proof -
  let ?X = "''/'' @ D @ ''.'' @ e"
  let ?rest = "L @ ?X"
  have tw: "takeWhile (in_class localeItems) ?rest = L"
    using assms(1) slash_not_locale by (auto simp: locale_name_def list_all_iff)
  have later: "search rootRx (Suc 0) (''/'' @ ?rest) = None"
    using no_dot_slash_after_start [OF assms] by (intro search_rootRx_none) simp
  have step: "(ms (Seq AnyChar extension) (q, drop k ?rest, h) \<noteq> []) =
                (starts_with (drop (Suc k) ?rest) ''php'' \<or> starts_with (drop (Suc k) ?rest) ''json'')"
    if "k \<le> length L" for k q h
  proof -
    define v where "v = drop (Suc k) ?rest"
    obtain c where c: "drop k ?rest = c # v" "c \<in> set L \<union> {CHR ''/''}"
    proof (cases "k < length L")
      case True
      then have "drop k ?rest = (L ! k) # v"
        by (simp add: v_def Cons_nth_drop_Suc [symmetric] nth_append)
      with True that show ?thesis by simp
    next
      case False
      with \<open>k \<le> length L\<close> have "k = length L" by simp
      then have "drop k ?rest = CHR ''/'' # v" by (simp add: v_def)
      with that show ?thesis by simp
    qed
    have "\<not> line_terminator c"
      using c(2) assms(1) locale_not_terminator
      by (auto simp: locale_name_def list_all_iff line_terminator_def)
    then have "(ms (Seq AnyChar extension) (q, c # v, h) \<noteq> []) =
                 (starts_with v ''php'' \<or> starts_with v ''json'')"
      by (simp only: tail_nonempty list.case simp_thms)
    then show ?thesis
      unfolding c(1) v_def .
  qed
  have "ms rootRx (0, ''./'' @ ?rest, []) =
          concat (map (ms (Seq AnyChar extension))
            (ms (Group 1 (Plus localeChars)) (Suc (Suc 0), ?rest, [])))"
  proof -
    have "ms (Lit ''./'') (0, ''./'' @ ?rest, []) = [(Suc (Suc 0), ?rest, [])]"
      by (simp add: starts_with_def)
    then have "ms rootRx (0, ''./'' @ ?rest, []) =
        ms (Seq (Group 1 (Plus localeChars)) (Seq AnyChar extension)) (Suc (Suc 0), ?rest, [])"
      by (simp only: rootRx_def ms.simps(4) list.map concat.simps append_Nil2)
    then show ?thesis by (simp only: ms.simps(4))
  qed
  then have "(ms rootRx (0, ''./'' @ ?rest, []) \<noteq> []) =
          (\<exists>y \<in> set (ms (Group 1 (Plus localeChars)) (Suc (Suc 0), ?rest, [])).
              ms (Seq AnyChar extension) y \<noteq> [])"
    by auto
  also have "\<dots> = (\<exists>k \<in> {1..length L}.
              ms (Seq AnyChar extension) (Suc (Suc 0) + k, drop k ?rest, [(1, take k ?rest)]) \<noteq> [])"
    by (simp only: localeChars_def set_ms_Group_Plus_Class tw bex_simps)
  also have "\<dots> = (\<exists>k \<in> {1..length L}.
               starts_with (drop (Suc k) ?rest) ''php'' \<or> starts_with (drop (Suc k) ?rest) ''json'')"
    using step by auto
  finally have now: "(ms rootRx (0, ''./'' @ ?rest, []) \<noteq> []) =
      (\<exists>k \<in> {1..length L}.
               starts_with (drop (Suc k) ?rest) ''php'' \<or> starts_with (drop (Suc k) ?rest) ''json'')" .
  have "(exec rootRx (''./'' @ ?rest) \<noteq> None) = (ms rootRx (0, ''./'' @ ?rest, []) \<noteq> [])"
    using later
    by (cases "ms rootRx (0, ''./'' @ ?rest, [])") (auto simp: exec_def simp del: ms.simps)
  with now show ?thesis by simp
qed

lemma rootRx_on_php_domain:
  "exec rootRx ''./en/php.json'' = Some (''./en/php'', [(1, ''en'')])"
  by code_simp

section \<open>An ignore list that is a Map\<close>

text \<open>A \<^verbatim>\<open>Map\<close> has no enumerable properties, so with it nothing is ignored.\<close>

lemma shouldIgnore_Map: "\<not> shouldIgnore (IgnoreMap es) locale domain"
  by (simp add: shouldIgnore_def)

lemma entry_key_Map: "entry_key (Some (IgnoreMap es)) g file = entry_key None g file"
  by (simp add: entry_key_def shouldIgnore_Map Let_def)

lemma importTranslations_Map:
  "importTranslations files (Some (IgnoreMap es)) g = importTranslations files None g"
  by (rule ext) (simp add: importTranslations_last_writer last_writer_def entry_key_Map)

section \<open>Claims about the catalogue builder\<close>

lemma catalogue_at_file:
  assumes "ctx_keys files = pre @ file # post"
    and "entry_key ignore g file = Some k"
  shows "k \<in> dom (importTranslations files ignore g)"
    and "(\<forall>f \<in> set post. entry_key ignore g f \<noteq> Some k) \<Longrightarrow>
           importTranslations files ignore g k = Some (ctx_resolve files file)"
proof -
  have "last_writer ignore g (ctx_keys files) k \<noteq> None"
    using assms by (auto simp: last_writer_none)
  then show "k \<in> dom (importTranslations files ignore g)"
    by (auto simp: importTranslations_last_writer)
next
  assume "\<forall>f \<in> set post. entry_key ignore g f \<noteq> Some k"
  then have "last_writer ignore g post k = None"
    by (simp add: last_writer_none)
  then have "last_writer ignore g (ctx_keys files) k = Some file"
    using assms by (simp add: last_writer_append last_writer_Cons)
  then show "importTranslations files ignore g k = Some (ctx_resolve files file)"
    by (simp add: importTranslations_last_writer)
qed

lemma catalogue_no_writer:
  "(\<forall>f \<in> set (ctx_keys files). entry_key ignore g f \<noteq> Some k) \<Longrightarrow>
     importTranslations files ignore g k = None"
  by (simp add: importTranslations_last_writer last_writer_none)

text \<open>
  What the callback does on the two shapes of path. A root-level path is stored under
  its locale and the global key whatever the ignore list is. A scoped path that the
  root-level pattern does not accept, under an ignore list that is absent or a plain
  object, is stored under \<^verbatim>\<open>L.D\<close> exactly when \<open>(L, D)\<close> is not in the list. In both
  cases the entry is still in the catalogue at the end unless a later file is stored
  under the same key.
\<close>

lemma root_path_entry:
  assumes "locale_name X" and "is_extension e" and "file = ''./'' @ X @ ''.'' @ e"
    and "ctx_keys files = pre @ file # post"
  shows "(\<forall>ignore' catalogue. import_file files ignore' g catalogue file
            = catalogue(X @ ''.'' @ js_string g \<mapsto> ctx_resolve files file))
       \<and> X @ ''.'' @ js_string g \<in> dom (importTranslations files ignore g)
       \<and> ((\<forall>f \<in> set post. entry_key ignore g f \<noteq> Some (X @ ''.'' @ js_string g)) \<longrightarrow>
            importTranslations files ignore g (X @ ''.'' @ js_string g) = Some (ctx_resolve files file))"
proof -
  have k: "entry_key ignore' g file = Some (X @ ''.'' @ js_string g)" for ignore'
    unfolding assms(3) by (rule entry_key_root [OF assms(1,2)])
  show ?thesis
    using catalogue_at_file [OF assms(4) k [of ignore]] k
    by (simp add: import_file_entry)
qed

lemma scoped_path_entry:
  assumes "locale_name L" and "locale_name D" and "is_extension e"
    and "file = ''./'' @ L @ ''/'' @ D @ ''.'' @ e"
    and "exec rootRx file = None"
    and "ignore = None \<or> (\<exists>es. ignore = Some (IgnoreObject es))"
    and "ctx_keys files = pre @ file # post"
  shows "(listed ignore L D \<longrightarrow>
            import_file files ignore g catalogue file = catalogue
          \<and> (js_string g \<noteq> D \<and> \<not> (L = ''undefined'' \<and> D = ''undefined'') \<longrightarrow>
               importTranslations files ignore g (L @ ''.'' @ D) = None))
       \<and> (\<not> listed ignore L D \<longrightarrow>
            import_file files ignore g catalogue file
              = catalogue(L @ ''.'' @ D \<mapsto> ctx_resolve files file)
          \<and> L @ ''.'' @ D \<in> dom (importTranslations files ignore g)
          \<and> ((\<forall>f \<in> set post. entry_key ignore g f \<noteq> Some (L @ ''.'' @ D)) \<longrightarrow>
               importTranslations files ignore g (L @ ''.'' @ D) = Some (ctx_resolve files file)))"
proof (cases "listed ignore L D")
  case True
  then obtain es where es: "ignore = Some (IgnoreObject es)"
    using assms(6) by (auto simp: listed_def)
  have "entry_key ignore g file = None"
    using entry_key_scoped [OF assms(1,2,3), of ignore g] assms(4,5) True es
    by (simp add: shouldIgnore_object)
  then have 1: "import_file files ignore g catalogue file = catalogue"
    by (simp add: import_file_entry)
  have 2: "importTranslations files ignore g (L @ ''.'' @ D) = None"
    if "js_string g \<noteq> D" "\<not> (L = ''undefined'' \<and> D = ''undefined'')"
    using listed_never_assigned [OF assms(1,2) True [unfolded es] that] es
    by (intro catalogue_no_writer) simp
  from True 1 2 show ?thesis by simp
next
  case False
  have "entry_key ignore g file = Some (L @ ''.'' @ D)"
    using entry_key_scoped [OF assms(1,2,3), of ignore g] assms(4,5,6) False
    by (auto simp: shouldIgnore_object)
  with False catalogue_at_file [OF assms(7) this] show ?thesis
    by (simp add: import_file_entry)
qed

text \<open>
  Claim C9. When two enumerated files are classified to the same catalogue key, the
  catalogue maps that key to the content of the one enumerated later (no file after it
  being classified to the key): the assignment of a file overwrites whatever entry the
  key had.
\<close>

theorem C9_later_file_wins:
  assumes "ctx_keys files = xs @ f1 # ys @ f2 # zs"
    and "entry_key ignore g f1 = Some k"
    and "entry_key ignore g f2 = Some k"
    and "\<forall>f \<in> set zs. entry_key ignore g f \<noteq> Some k"
  shows "importTranslations files ignore g k = Some (ctx_resolve files f2)
       \<and> import_file files ignore g catalogue f2 k = Some (ctx_resolve files f2)"
proof -
  have "ctx_keys files = (xs @ f1 # ys) @ f2 # zs" using assms(1) by simp
  from catalogue_at_file(2) [OF this assms(3)] assms(3,4) show ?thesis
    by (simp add: import_file_entry)
qed

text \<open>C9 at \<^verbatim>\<open>./en/auth.php\<close>, \<^verbatim>\<open>./en/auth.json\<close> and then \<^verbatim>\<open>./fr/auth.json\<close>.\<close>

theorem C9_later_file_wins_witness:
  "entry_key None (Some ''__global__'') ''./en/auth.php'' = Some ''en.auth''
   \<and> entry_key None (Some ''__global__'') ''./en/auth.json'' = Some ''en.auth''
   \<and> entry_key None (Some ''__global__'') ''./fr/auth.json'' \<noteq> Some ''en.auth''
   \<and> importTranslations
         \<lparr>ctx_keys = [''./en/auth.php'', ''./en/auth.json'', ''./fr/auth.json''], ctx_resolve = id\<rparr>
         None (Some ''__global__'') ''en.auth'' = Some ''./en/auth.json''"
proof -
  have 1: "entry_key None (Some ''__global__'') ''./en/auth.php'' = Some ''en.auth''"
    by code_simp
  have 2: "entry_key None (Some ''__global__'') ''./en/auth.json'' = Some ''en.auth''"
    by code_simp
  have 3: "entry_key None (Some ''__global__'') ''./fr/auth.json'' \<noteq> Some ''en.auth''"
    by code_simp
  have 4: "\<forall>f \<in> set [''./fr/auth.json'']. entry_key None (Some ''__global__'') f \<noteq> Some ''en.auth''"
    using 3 by simp
  show ?thesis
    using 1 2 3 C9_later_file_wins
      [of "\<lparr>ctx_keys = [''./en/auth.php'', ''./en/auth.json'', ''./fr/auth.json''], ctx_resolve = id\<rparr>"
        "[]" "''./en/auth.php''" "[]" "''./en/auth.json''" "[''./fr/auth.json'']"
        None "Some ''__global__''" "''en.auth''", OF _ 1 2 4]
    by simp
qed

text \<open>
  Claim C1 says that a scoped path \<^verbatim>\<open>./L/D.<ext>\<close> whose pair \<open>(L, D)\<close> is not in the
  ignore list is in the catalogue under \<^verbatim>\<open>L.D\<close>, and that one whose pair is in the list
  has no such key. In the source the root-level pattern comes first, is not anchored at
  the end and has an unescaped dot, so it accepts \<^verbatim>\<open>./en/php\<close>: with nothing ignored,
  \<^verbatim>\<open>./en/php.json\<close> is stored under \<^verbatim>\<open>en.__global__\<close> and there is no key \<^verbatim>\<open>en.php\<close>. And
  the ignore list, declared a \<^verbatim>\<open>Map\<close>, is read with \<^verbatim>\<open>Object.entries\<close>: with the \<^verbatim>\<open>Map\<close>
  that lists \<open>(en, auth)\<close>, \<^verbatim>\<open>./en/auth.json\<close> is stored under \<^verbatim>\<open>en.auth\<close> all the same.
\<close>

theorem C1_scoped_path_misfiled:
  "locale_name ''en'' \<and> locale_name ''php'' \<and> locale_name ''auth'' \<and> is_extension ''json''
   \<and> \<not> listed None ''en'' ''php''
   \<and> importTranslations \<lparr>ctx_keys = [''./en/php.json''], ctx_resolve = id\<rparr>
        None (Some ''__global__'') ''en.php'' = None
   \<and> importTranslations \<lparr>ctx_keys = [''./en/php.json''], ctx_resolve = id\<rparr>
        None (Some ''__global__'') ''en.__global__'' = Some ''./en/php.json''
   \<and> listed (Some (IgnoreMap [(''en'', [''auth''])])) ''en'' ''auth''
   \<and> importTranslations \<lparr>ctx_keys = [''./en/auth.json''], ctx_resolve = id\<rparr>
        (Some (IgnoreMap [(''en'', [''auth''])])) (Some ''__global__'') ''en.auth''
        = Some ''./en/auth.json''"
  by code_simp

text \<open>
  Claim C6 says that the catalogue maps the key of a root-level path \<^verbatim>\<open>./X.<ext>\<close> to
  that file's content. The callback does assign it (lemma \<open>root_path_entry\<close>), but the
  root-level pattern also accepts the scoped path \<^verbatim>\<open>./en/php.json\<close>, whose key by the
  specification is \<^verbatim>\<open>en.php\<close>: enumerated after \<^verbatim>\<open>./en.json\<close>, it replaces the content
  under \<^verbatim>\<open>en.__global__\<close>.
\<close>

theorem C6_root_entry_replaced:
  "locale_name ''en'' \<and> locale_name ''php'' \<and> is_extension ''json''
   \<and> import_file \<lparr>ctx_keys = [''./en.json'', ''./en/php.json''], ctx_resolve = id\<rparr>
        None (Some ''__global__'') Map.empty ''./en.json'' ''en.__global__'' = Some ''./en.json''
   \<and> importTranslations \<lparr>ctx_keys = [''./en.json'', ''./en/php.json''], ctx_resolve = id\<rparr>
        None (Some ''__global__'') ''en.__global__'' = Some ''./en/php.json''
   \<and> importTranslations \<lparr>ctx_keys = [''./en.json'', ''./en/php.json''], ctx_resolve = id\<rparr>
        None (Some ''__global__'') ''en.php'' = None"
  by code_simp

text \<open>
  Claim C2 says a path that matches neither pattern adds no entry. The callback tests
  only the root-level match; for \<^verbatim>\<open>./en/sub/auth.json\<close> both matches fail, locale and
  domain are \<^verbatim>\<open>undefined\<close>, and the file is stored under \<^verbatim>\<open>undefined.undefined\<close>.
\<close>

theorem C2_unmatched_path_adds_entry:
  "exec rootRx ''./en/sub/auth.json'' = None
   \<and> exec scopedRx ''./en/sub/auth.json'' = None
   \<and> importTranslations \<lparr>ctx_keys = [''./en/sub/auth.json''], ctx_resolve = id\<rparr>
        None (Some ''__global__'') ''undefined.undefined'' = Some ''./en/sub/auth.json''
   \<and> importTranslations \<lparr>ctx_keys = [], ctx_resolve = id\<rparr>
        None (Some ''__global__'') ''undefined.undefined'' = None"
  by code_simp

lemma import_file_unmatched:
  assumes "exec rootRx file = None" "exec scopedRx file = None"
  shows "import_file files ignore g catalogue file
           = catalogue(''undefined.undefined'' \<mapsto> ctx_resolve files file)"
  using entry_key_unmatched [OF assms] by (simp add: import_file_entry)

text \<open>
  Claim C7 says that the catalogue built with an ignore list is the unfiltered catalogue
  minus the entries of the ignored pairs. With the ignore list a \<^verbatim>\<open>Map\<close> that lists
  \<open>(fr, auth)\<close>, the catalogue built from \<^verbatim>\<open>./en/auth.json\<close> and \<^verbatim>\<open>./fr/auth.json\<close> still
  has \<^verbatim>\<open>fr.auth\<close>, which the unfiltered catalogue minus that entry has not: it is the
  unfiltered catalogue itself (lemma \<open>importTranslations_Map\<close>). With a plain object
  that lists \<open>(en, php)\<close>, the content of \<^verbatim>\<open>./en/php.json\<close> stays in the catalogue, under
  \<^verbatim>\<open>en.__global__\<close>.
\<close>

theorem C7_ignored_entry_kept:
  "listed (Some (IgnoreMap [(''fr'', [''auth''])])) ''fr'' ''auth''
   \<and> importTranslations \<lparr>ctx_keys = [''./en/auth.json'', ''./fr/auth.json''], ctx_resolve = id\<rparr>
        (Some (IgnoreMap [(''fr'', [''auth''])])) (Some ''__global__'') ''fr.auth''
        = Some ''./fr/auth.json''
   \<and> (importTranslations \<lparr>ctx_keys = [''./en/auth.json'', ''./fr/auth.json''], ctx_resolve = id\<rparr>
        None (Some ''__global__'') |` (- {''fr.auth''})) ''fr.auth'' = None
   \<and> listed (Some (IgnoreObject [(''en'', [''php''])])) ''en'' ''php''
   \<and> importTranslations \<lparr>ctx_keys = [''./en/php.json''], ctx_resolve = id\<rparr>
        (Some (IgnoreObject [(''en'', [''php''])])) (Some ''__global__'') ''en.__global__''
        = Some ''./en/php.json''"
proof -
  have "listed (Some (IgnoreMap [(''fr'', [''auth''])])) ''fr'' ''auth''"
    by code_simp
  moreover have
    "importTranslations \<lparr>ctx_keys = [''./en/auth.json'', ''./fr/auth.json''], ctx_resolve = id\<rparr>
        (Some (IgnoreMap [(''fr'', [''auth''])])) (Some ''__global__'') ''fr.auth''
        = Some ''./fr/auth.json''"
    by code_simp
  moreover have "listed (Some (IgnoreObject [(''en'', [''php''])])) ''en'' ''php''"
    by code_simp
  moreover have
    "importTranslations \<lparr>ctx_keys = [''./en/php.json''], ctx_resolve = id\<rparr>
        (Some (IgnoreObject [(''en'', [''php''])])) (Some ''__global__'') ''en.__global__''
        = Some ''./en/php.json''"
    by code_simp
  ultimately show ?thesis by simp
qed

section \<open>The qualified-key pattern and the shape of the specification\<close>

lemma split_on_nonempty: "split_on d s \<noteq> []"
  by (induction s) (auto split: list.splits)

lemma split_on_no_delim: "d \<notin> set a \<Longrightarrow> split_on d a = [a]"
  by (induction a) auto

lemma split_on_first: "d \<notin> set a \<Longrightarrow> split_on d (a @ d # t) = a # split_on d t"
  by (induction a) auto

lemma split_on_covers:
  "c \<in> set s \<Longrightarrow> c \<noteq> d \<Longrightarrow> \<exists>seg \<in> set (split_on d s). c \<in> set seg"
proof (induction s)
  case Nil
  then show ?case by simp
next
  case (Cons x xs)
  obtain y ys where y: "split_on d xs = y # ys"
    using split_on_nonempty [of d xs] by (cases "split_on d xs") auto
  show ?case
  proof (cases "x = d")
    case True
    with Cons show ?thesis by auto
  next
    case False
    with Cons y show ?thesis by (cases "c = x") auto
  qed
qed

lemma dot_not_wordHyphen: "\<not> in_class wordHyphenItems CHR ''.''"
  by (simp add: wordHyphenItems_def in_class_def word_char_def char_between_def)

lemma segments_decomp:
  assumes "list_all (in_class wordHyphenItems) a"
    and "r = [] \<or> \<not> in_class wordHyphenItems (hd r)"
  shows "list_all segment_ok (split_on CHR ''.'' (a @ r)) =
           (a \<noteq> [] \<and> (case r of [] \<Rightarrow> True
                         | c # t \<Rightarrow> c = CHR ''.'' \<and> list_all segment_ok (split_on CHR ''.'' t)))"
proof -
  have a: "CHR ''.'' \<notin> set a"
    using assms(1) dot_not_wordHyphen by (auto simp: list_all_iff)
  show ?thesis
  proof (cases r)
    case Nil
    with assms(1) split_on_no_delim [OF a] show ?thesis
      by (simp add: segment_ok_def)
  next
    case (Cons c t)
    show ?thesis
    proof (cases "c = CHR ''.''")
      case True
      with Cons assms(1) split_on_first [OF a, of t] show ?thesis
        by (simp add: segment_ok_def)
    next
      case False
      have "\<not> in_class wordHyphenItems c" using Cons assms(2) by simp
      moreover have "c \<in> set (a @ r)" using Cons by simp
      ultimately have "\<not> list_all segment_ok (split_on CHR ''.'' (a @ r))"
        using split_on_covers [of c "a @ r" "CHR ''.''"] False
        by (auto simp: list_all_iff segment_ok_def)
      with Cons False show ?thesis by simp
    qed
  qed
qed

lemma shape_decomp:
  assumes "list_all (in_class wordHyphenItems) a"
    and "r = [] \<or> \<not> in_class wordHyphenItems (hd r)"
  shows "qualified_key_shape (a @ r) =
           (a \<noteq> [] \<and> (case r of [] \<Rightarrow> False
                         | c # t \<Rightarrow> c = CHR ''.'' \<and> list_all segment_ok (split_on CHR ''.'' t)))"
proof -
  have a: "CHR ''.'' \<notin> set a"
    using assms(1) dot_not_wordHyphen by (auto simp: list_all_iff)
  show ?thesis
  proof (cases r)
    case Nil
    with split_on_no_delim [OF a] show ?thesis
      by (simp add: qualified_key_shape_def)
  next
    case (Cons c t)
    show ?thesis
    proof (cases "c = CHR ''.''")
      case True
      have "1 \<le> length (split_on CHR ''.'' t)"
        using split_on_nonempty [of "CHR ''.''" t] by (cases "split_on CHR ''.'' t") auto
      with Cons True assms(1) split_on_first [OF a, of t] show ?thesis
        by (simp add: qualified_key_shape_def segment_ok_def)
    next
      case False
      have "\<not> in_class wordHyphenItems c" using Cons assms(2) by simp
      moreover have "c \<in> set (a @ r)" using Cons by simp
      ultimately have "\<not> list_all segment_ok (split_on CHR ''.'' (a @ r))"
        using split_on_covers [of c "a @ r" "CHR ''.''"] False
        by (auto simp: list_all_iff segment_ok_def)
      with Cons False show ?thesis by (simp add: qualified_key_shape_def)
    qed
  qed
qed

lemma ms_Lit_dot:
  "ms (Lit ''.'') (p, s, g) =
     (case s of [] \<Rightarrow> [] | c # t \<Rightarrow> if c = CHR ''.'' then [(Suc p, t, g)] else [])"
  by (cases s) (auto simp: starts_with_def)

lemma set_ms_dotSegment:
  "set (ms dotSegment (p, s, g)) =
     (case s of
        [] \<Rightarrow> {}
      | c # t \<Rightarrow>
          if c = CHR ''.''
          then (\<lambda>k. (Suc p + k, drop k t, g)) ` {1..length (takeWhile (in_class wordHyphenItems) t)}
          else {})"
proof (cases s)
  case Nil
  then show ?thesis by (simp add: dotSegment_def starts_with_def)
next
  case (Cons c t)
  show ?thesis
  proof (cases "c = CHR ''.''")
    case True
    have "ms dotSegment (p, s, g) = ms (Plus wordHyphen) (Suc p, t, g)"
      using Cons True by (simp add: dotSegment_def starts_with_def)
    then show ?thesis
      using Cons True by (simp only: wordHyphen_def set_ms_Plus_Class) simp
  next
    case False
    with Cons show ?thesis by (simp add: dotSegment_def starts_with_def)
  qed
qed

lemma dotSegment_shorter:
  "y \<in> set (ms dotSegment (p, s, g)) \<Longrightarrow> length (fst (snd y)) < length s"
  by (auto simp: set_ms_dotSegment split: list.splits if_splits)

lemma reaches_end_Star_step:
  "reaches_end (Star a) (p, s, g) =
     (s = [] \<or> (\<exists>y \<in> set (ms a (p, s, g)).
                  length (fst (snd y)) < length s \<and> reaches_end (Star a) y))"
proof -
  have "ms (Star a) (p, s, g) =
     concat (map (\<lambda>st. if length (fst (snd st)) < length s then ms (Star a) st else [])
                 (ms a (p, s, g))) @ [(p, s, g)]"
    by (rule ms.simps(6))
  then show ?thesis
    unfolding reaches_end_def list_ex_iff
    by (auto simp del: ms.simps split: if_splits)
qed

lemma dotSegment_stuck:
  assumes "s \<noteq> []" "hd s \<noteq> CHR ''.''"
  shows "ms dotSegment (p, s, g) = []"
proof -
  have "set (ms dotSegment (p, s, g)) = {}"
    using assms by (cases s) (simp_all add: set_ms_dotSegment)
  then show ?thesis by simp
qed

lemma Star_dotSegment_stuck:
  assumes "s \<noteq> []" "hd s \<noteq> CHR ''.''"
  shows "\<not> reaches_end (Star dotSegment) (p, s, g)"
  using assms by (simp add: reaches_end_Star_step [of dotSegment] dotSegment_stuck)

lemma drop_inside_run:
  assumes "k < length (takeWhile P t)"
  shows "drop k t \<noteq> [] \<and> P (hd (drop k t))"
proof -
  have k: "k < length t"
    using assms length_takeWhile_le [of P t] by simp
  have "takeWhile P t ! k = t ! k"
    using assms by (rule takeWhile_nth)
  moreover have "P (takeWhile P t ! k)"
    using assms by (meson nth_mem set_takeWhileD)
  ultimately show ?thesis
    using k by (simp add: hd_drop_conv_nth)
qed

lemma after_segment:
  fixes t :: string
  defines "n \<equiv> length (takeWhile (in_class wordHyphenItems) t)"
  shows "(\<exists>k \<in> {1..n}. reaches_end (Star dotSegment) (q + k, drop k t, g)) =
           (1 \<le> n \<and> reaches_end (Star dotSegment) (q + n, dropWhile (in_class wordHyphenItems) t, g))"
proof -
  have stuck: "\<not> reaches_end (Star dotSegment) (q + k, drop k t, g)" if "k < n" for k
  proof -
    from drop_inside_run [of k "in_class wordHyphenItems" t] that
    have "drop k t \<noteq> []" "in_class wordHyphenItems (hd (drop k t))"
      by (simp_all add: n_def)
    with dot_not_wordHyphen have "hd (drop k t) \<noteq> CHR ''.''" by auto
    with \<open>drop k t \<noteq> []\<close> show ?thesis by (rule Star_dotSegment_stuck)
  qed
  have dn: "drop n t = dropWhile (in_class wordHyphenItems) t"
    unfolding n_def by (rule dropWhile_eq_drop [symmetric])
  show ?thesis
  proof
    assume "\<exists>k \<in> {1..n}. reaches_end (Star dotSegment) (q + k, drop k t, g)"
    then obtain k where k: "1 \<le> k" "k \<le> n" "reaches_end (Star dotSegment) (q + k, drop k t, g)"
      by auto
    with stuck [of k] have "k = n" by (cases "k < n") auto
    with k dn show "1 \<le> n \<and> reaches_end (Star dotSegment) (q + n, dropWhile (in_class wordHyphenItems) t, g)"
      by simp
  next
    assume "1 \<le> n \<and> reaches_end (Star dotSegment) (q + n, dropWhile (in_class wordHyphenItems) t, g)"
    then show "\<exists>k \<in> {1..n}. reaches_end (Star dotSegment) (q + k, drop k t, g)"
      using dn by (intro bexI [of _ n]) simp_all
  qed
qed

lemma reaches_end_Star_dotSegment:
  "reaches_end (Star dotSegment) (p, s, g) =
     (case s of [] \<Rightarrow> True
      | c # t \<Rightarrow> c = CHR ''.'' \<and> list_all segment_ok (split_on CHR ''.'' t))"
proof (induction "length s" arbitrary: p s rule: less_induct)
  case less
  show ?case
  proof (cases s)
    case Nil
    then show ?thesis by (simp add: reaches_end_Star_step [of dotSegment])
  next
    case (Cons c t)
    show ?thesis
    proof (cases "c = CHR ''.''")
      case False
      with Cons Star_dotSegment_stuck [of s p g] show ?thesis by simp
    next
      case True
      let ?P = "in_class wordHyphenItems"
      let ?n = "length (takeWhile ?P t)"
      let ?r = "dropWhile ?P t"
      have "reaches_end (Star dotSegment) (p, s, g) =
              (\<exists>y \<in> set (ms dotSegment (p, s, g)). reaches_end (Star dotSegment) y)"
        using Cons dotSegment_shorter [of _ p s g]
        by (subst reaches_end_Star_step) auto
      also have "\<dots> = (\<exists>k \<in> {1..?n}. reaches_end (Star dotSegment) (Suc p + k, drop k t, g))"
        using Cons True by (simp add: set_ms_dotSegment)
      also have "\<dots> = (1 \<le> ?n \<and> reaches_end (Star dotSegment) (Suc p + ?n, ?r, g))"
        by (rule after_segment)
      also have "reaches_end (Star dotSegment) (Suc p + ?n, ?r, g) =
              (case ?r of [] \<Rightarrow> True
               | c # t' \<Rightarrow> c = CHR ''.'' \<and> list_all segment_ok (split_on CHR ''.'' t'))"
      proof (rule less)
        have "length ?r \<le> length t" by (rule length_dropWhile_le)
        then show "length ?r < length s" using Cons by simp
      qed
      also have "(1 \<le> ?n \<and> (case ?r of [] \<Rightarrow> True
               | c # t' \<Rightarrow> c = CHR ''.'' \<and> list_all segment_ok (split_on CHR ''.'' t')))
            = list_all segment_ok (split_on CHR ''.'' (takeWhile ?P t @ ?r))"
      proof -
        have 1: "list_all ?P (takeWhile ?P t)"
          by (auto simp: list_all_iff dest: set_takeWhileD)
        have 2: "?r = [] \<or> \<not> ?P (hd ?r)"
          by (metis hd_dropWhile)
        have 3: "(1 \<le> ?n) = (takeWhile ?P t \<noteq> [])"
          by (cases "takeWhile ?P t") simp_all
        show ?thesis
          unfolding segments_decomp [OF 1 2] 3 ..
      qed
      finally show ?thesis using Cons True by simp
    qed
  qed
qed

lemma ms_Seq_Eol: "(ms (Seq a Eol) st \<noteq> []) = reaches_end a st"
proof -
  have "(ms Eol y \<noteq> []) = (fst (snd y) = [])" for y
    by (cases y) simp
  then show ?thesis
    by (cases st) (auto simp: reaches_end_def list_ex_iff)
qed

lemma reaches_end_Plus:
  "reaches_end (Plus a) st = (\<exists>y \<in> set (ms a st). reaches_end (Star a) y)"
  by (cases st) (auto simp: reaches_end_def list_ex_iff Plus_def simp del: ms.simps(6))

lemma after_dotSegment:
  "(\<exists>y \<in> set (ms dotSegment (p, s, g)). reaches_end (Star dotSegment) y) =
     (case s of [] \<Rightarrow> False
      | c # t \<Rightarrow> c = CHR ''.'' \<and> list_all segment_ok (split_on CHR ''.'' t))"
proof (cases s)
  case Nil
  then show ?thesis by (simp add: set_ms_dotSegment)
next
  case (Cons c t)
  have "reaches_end (Star dotSegment) (p, s, g) =
          (\<exists>y \<in> set (ms dotSegment (p, s, g)). reaches_end (Star dotSegment) y)"
    using Cons dotSegment_shorter [of _ p s g]
    by (subst reaches_end_Star_step) auto
  then show ?thesis
    using Cons by (simp add: reaches_end_Star_dotSegment)
qed

lemma tail_after_run:
  fixes key :: string
  defines "n \<equiv> length (takeWhile (in_class wordHyphenItems) key)"
  shows "(\<exists>k \<in> {1..n}. reaches_end (Plus dotSegment) (q + k, drop k key, g)) =
           (1 \<le> n \<and> reaches_end (Plus dotSegment) (q + n, dropWhile (in_class wordHyphenItems) key, g))"
proof -
  have stuck: "\<not> reaches_end (Plus dotSegment) (q + k, drop k key, g)" if "k < n" for k
  proof -
    from drop_inside_run [of k "in_class wordHyphenItems" key] that
    have "drop k key \<noteq> []" "in_class wordHyphenItems (hd (drop k key))"
      by (simp_all add: n_def)
    with dot_not_wordHyphen have "hd (drop k key) \<noteq> CHR ''.''" by auto
    with \<open>drop k key \<noteq> []\<close> have "ms dotSegment (q + k, drop k key, g) = []"
      by (rule dotSegment_stuck)
    then show ?thesis by (simp add: reaches_end_Plus)
  qed
  have dn: "drop n key = dropWhile (in_class wordHyphenItems) key"
    unfolding n_def by (rule dropWhile_eq_drop [symmetric])
  show ?thesis
  proof
    assume "\<exists>k \<in> {1..n}. reaches_end (Plus dotSegment) (q + k, drop k key, g)"
    then obtain k where k: "1 \<le> k" "k \<le> n" "reaches_end (Plus dotSegment) (q + k, drop k key, g)"
      by auto
    with stuck [of k] have "k = n" by (cases "k < n") auto
    with k dn show "1 \<le> n \<and> reaches_end (Plus dotSegment) (q + n, dropWhile (in_class wordHyphenItems) key, g)"
      by simp
  next
    assume "1 \<le> n \<and> reaches_end (Plus dotSegment) (q + n, dropWhile (in_class wordHyphenItems) key, g)"
    then show "\<exists>k \<in> {1..n}. reaches_end (Plus dotSegment) (q + k, drop k key, g)"
      using dn by (intro bexI [of _ n]) simp_all
  qed
qed

lemma ms_qualifiedRx:
  "(ms qualifiedRx (0, key, []) \<noteq> []) = qualified_key_shape key"
proof -
  let ?P = "in_class wordHyphenItems"
  let ?n = "length (takeWhile ?P key)"
  let ?r = "dropWhile ?P key"
  let ?tail = "Seq (Plus dotSegment) Eol"
  have "ms qualifiedRx (0, key, []) = concat (map (ms ?tail) (ms (Plus wordHyphen) (0, key, [])))"
    by (simp add: qualifiedRx_def del: ms.simps(6))
  then have "(ms qualifiedRx (0, key, []) \<noteq> []) =
               (\<exists>y \<in> set (ms (Plus wordHyphen) (0, key, [])). ms ?tail y \<noteq> [])"
    by auto
  also have "\<dots> = (\<exists>k \<in> {1..?n}. reaches_end (Plus dotSegment) (0 + k, drop k key, []))"
    by (simp only: wordHyphen_def set_ms_Plus_Class ms_Seq_Eol bex_simps)
  also have "\<dots> = (1 \<le> ?n \<and> reaches_end (Plus dotSegment) (0 + ?n, ?r, []))"
    by (rule tail_after_run)
  also have "\<dots> = (takeWhile ?P key \<noteq> []
                   \<and> (case ?r of [] \<Rightarrow> False
                       | c # t \<Rightarrow> c = CHR ''.'' \<and> list_all segment_ok (split_on CHR ''.'' t)))"
  proof -
    have "(1 \<le> ?n) = (takeWhile ?P key \<noteq> [])"
      by (cases "takeWhile ?P key") simp_all
    then show ?thesis
      by (simp only: reaches_end_Plus after_dotSegment)
  qed
  also have "\<dots> = qualified_key_shape (takeWhile ?P key @ ?r)"
  proof -
    have 1: "list_all ?P (takeWhile ?P key)"
      by (auto simp: list_all_iff dest: set_takeWhileD)
    have 2: "?r = [] \<or> \<not> ?P (hd ?r)"
      by (metis hd_dropWhile)
    show ?thesis
      unfolding shape_decomp [OF 1 2] ..
  qed
  finally show ?thesis by simp
qed

lemma search_Bol: "0 < p \<Longrightarrow> search (Seq Bol r) p s = None"
  by (induction s arbitrary: p) simp_all

lemma matches_qualifiedRx: "matches qualifiedRx key = qualified_key_shape key"
proof -
  have later: "search qualifiedRx (Suc 0) cs = None" for cs
    unfolding qualifiedRx_def by (rule search_Bol) simp
  have "(search qualifiedRx 0 key \<noteq> None) = (ms qualifiedRx (0, key, []) \<noteq> [])"
  proof (cases key)
    case Nil
    then show ?thesis
      by (cases "ms qualifiedRx (0, [], [])") (auto simp del: ms.simps)
  next
    case (Cons c cs)
    then show ?thesis
      using later [of cs]
      by (cases "ms qualifiedRx (0, c # cs, [])") (auto simp del: ms.simps)
  qed
  then show ?thesis
    by (simp add: matches_def exec_def ms_qualifiedRx)
qed

section \<open>Claims about the translation function and the plugin\<close>

lemma strip_global_other: "\<not> starts_with result g \<Longrightarrow> strip_global g result = result"
  by (simp add: strip_global_def)

lemma strip_global_echo: "strip_global g (g @ ''.'' @ key) = key"
  by (simp add: strip_global_def starts_with_def substr_from_def)

text \<open>
  Claim C5. For a key of the qualified-key shape, \<^verbatim>\<open>__\<close> returns what the translator's
  \<^verbatim>\<open>get\<close> returns for that key, with nothing stripped.
\<close>

theorem C5_qualified_key_direct:
  assumes "qualified_key_shape key"
  shows "translate get g key args = get key args"
  using assms by (simp add: translate_def matches_qualifiedRx)

text \<open>C5 at \<^verbatim>\<open>auth.failed\<close>, with a translation that starts with the global key.\<close>

theorem C5_qualified_key_direct_witness:
  "qualified_key_shape ''auth.failed''
   \<and> starts_with ''__global__.retry'' ''__global__''
   \<and> translate (table_get [(''auth.failed'', ''__global__.retry'')]) ''__global__'' ''auth.failed'' ()
       = ''__global__.retry''"
proof -
  have 1: "qualified_key_shape ''auth.failed''" by code_simp
  have 2: "starts_with ''__global__.retry'' ''__global__''" by code_simp
  have 3: "table_get [(''auth.failed'', ''__global__.retry'')] ''auth.failed'' () = ''__global__.retry''"
    by code_simp
  show ?thesis
    using 1 2 3 C5_qualified_key_direct [OF 1, of "table_get [(''auth.failed'', ''__global__.retry'')]"
        "''__global__''" "()"]
    by simp
qed

text \<open>
  Claim C3. For a key that is not of the qualified-key shape, \<^verbatim>\<open>__\<close> asks the translator
  for the global key, a dot and the key; when the translator echoes that string back,
  \<^verbatim>\<open>__\<close> returns the bare key.
\<close>

theorem C3_bare_key_echo:
  assumes "\<not> qualified_key_shape key"
  shows "translate get g key args = strip_global g (get (g @ ''.'' @ key) args)
       \<and> (get (g @ ''.'' @ key) args = g @ ''.'' @ key \<longrightarrow> translate get g key args = key)"
  using assms
  by (simp add: translate_def matches_qualifiedRx strip_global_def starts_with_def substr_from_def)

text \<open>C3 at \<^verbatim>\<open>missing\<close> with an empty table.\<close>

theorem C3_bare_key_echo_witness:
  "\<not> qualified_key_shape ''missing''
   \<and> table_get [] (''__global__'' @ ''.'' @ ''missing'') () = ''__global__'' @ ''.'' @ ''missing''
   \<and> translate (table_get []) ''__global__'' ''missing'' () = ''missing''"
proof -
  have 1: "\<not> qualified_key_shape ''missing''" by code_simp
  have 2: "table_get [] (''__global__'' @ ''.'' @ ''missing'') () = ''__global__'' @ ''.'' @ ''missing''"
    by code_simp
  have 3: "translate (table_get []) ''__global__'' ''missing'' () = ''missing''"
    using 2 C3_bare_key_echo [OF 1, of "table_get []" "''__global__''" "()"] by blast
  show ?thesis
    using 1 2 3 by simp
qed

text \<open>
  Claim C4 says a result that does not start with the global key followed by a dot is
  returned unchanged. The source tests \<^verbatim>\<open>startsWith\<close> on the global key without the
  dot and then drops one character more than the key: with global key \<^verbatim>\<open>app\<close>, the
  translation \<^verbatim>\<open>apple pie\<close> comes back as \<^verbatim>\<open>e pie\<close>.
\<close>

theorem C4_prefix_without_dot:
  "\<not> qualified_key_shape ''dessert''
   \<and> table_get [(''app.dessert'', ''apple pie'')] (''app'' @ ''.'' @ ''dessert'') () = ''apple pie''
   \<and> \<not> starts_with ''apple pie'' (''app'' @ ''.'')
   \<and> translate (table_get [(''app.dessert'', ''apple pie'')]) ''app'' ''dessert'' () = ''e pie''"
  by code_simp

text \<open>
  Claim C10. A key that contains a dot but is not of the qualified-key shape is handled
  as a bare key: \<^verbatim>\<open>__\<close> asks the translator for the global key, a dot and the key.
\<close>

theorem C10_dotted_unqualified_key:
  assumes "CHR ''.'' \<in> set key" and "\<not> qualified_key_shape key"
  shows "translate get g key args = strip_global g (get (g @ ''.'' @ key) args)"
  using assms(2) by (simp add: translate_def matches_qualifiedRx)

text \<open>C10 at \<^verbatim>\<open>a..b\<close> and \<^verbatim>\<open>auth.failed!\<close>; \<^verbatim>\<open>.x\<close> and \<^verbatim>\<open>x.\<close> are not of the shape either.\<close>

theorem C10_dotted_unqualified_key_witness:
  "CHR ''.'' \<in> set ''a..b'' \<and> \<not> qualified_key_shape ''a..b''
   \<and> translate (table_get [(''__global__.a..b'', ''found''), (''a..b'', ''other'')]) ''__global__'' ''a..b'' ()
       = ''found''
   \<and> \<not> qualified_key_shape ''auth.failed!''
   \<and> translate (table_get [(''__global__.auth.failed!'', ''found'')]) ''__global__'' ''auth.failed!'' ()
       = ''found''
   \<and> \<not> qualified_key_shape ''.x'' \<and> \<not> qualified_key_shape ''x.''"
proof -
  have 1: "CHR ''.'' \<in> set ''a..b''" by simp
  have 2: "\<not> qualified_key_shape ''a..b''" by code_simp
  have 3: "CHR ''.'' \<in> set ''auth.failed!''" by simp
  have 4: "\<not> qualified_key_shape ''auth.failed!''" by code_simp
  have 5: "\<not> qualified_key_shape ''.x''" "\<not> qualified_key_shape ''x.''" by code_simp+
  have 6: "strip_global ''__global__''
             (table_get [(''__global__.a..b'', ''found''), (''a..b'', ''other'')] (''__global__'' @ ''.'' @ ''a..b'') ())
           = ''found''"
    by code_simp
  have 7: "strip_global ''__global__''
             (table_get [(''__global__.auth.failed!'', ''found'')] (''__global__'' @ ''.'' @ ''auth.failed!'') ())
           = ''found''"
    by code_simp
  show ?thesis
    using 1 2 3 4 5 6 7
      C10_dotted_unqualified_key [OF 1 2,
        of "table_get [(''__global__.a..b'', ''found''), (''a..b'', ''other'')]" "''__global__''" "()"]
      C10_dotted_unqualified_key [OF 3 4,
        of "table_get [(''__global__.auth.failed!'', ''found'')]" "''__global__''" "()"]
    by simp
qed

text \<open>
  The messages the translator is built with: the discovered catalogue when the options
  have no \<^verbatim>\<open>messages\<close> property, and otherwise the value of that property, in which
  case the enumerated files have no influence.
\<close>

lemma install_messages:
  "lang_messages (install env files options) =
     (case opt_messages options of
        Absent \<Rightarrow>
          Some (importTranslations files (prop_value (opt_ignore options))
                  (spread_over (Some ''__global__'') (opt_globalTranslationsKey options)))
      | Given v \<Rightarrow> v)"
  by (simp add: install_def default_options_def prop_value_def spread_over_def Let_def
           split: own_prop.splits option.splits)

lemma install_given_messages:
  "opt_messages options = Given v \<Longrightarrow> install env files' options = install env files options"
  by (cases v)
     (simp_all add: install_def default_options_def prop_value_def spread_over_def Let_def)

text \<open>
  Claim C8 says that without pre-built messages the translator is built with the
  discovered catalogue, and that with a \<^verbatim>\<open>messages\<close> field discovery is bypassed. For the
  options \<^verbatim>\<open>{ messages: undefined }\<close> the source takes the \<^verbatim>\<open>??\<close> branch and calls
  \<^verbatim>\<open>importTranslations\<close>, and the spread \<^verbatim>\<open>...options\<close> after it then puts \<^verbatim>\<open>undefined\<close> back:
  the translator is built with no messages, although discovery from \<^verbatim>\<open>./en.json\<close> gives
  the entry \<^verbatim>\<open>en.__global__\<close>.
\<close>

theorem C8_undefined_messages:
  "prop_value (Given None :: string Translations own_prop) = None
   \<and> importTranslations \<lparr>ctx_keys = [''./en.json''], ctx_resolve = id\<rparr>
        None (Some ''__global__'') ''en.__global__'' = Some ''./en.json''
   \<and> lang_messages (install \<lparr>document_lang = ''en'', navigator_language = ''fr''\<rparr>
        \<lparr>ctx_keys = [''./en.json''], ctx_resolve = id\<rparr>
        \<lparr>opt_ignore = Absent, opt_globalTranslationsKey = Absent, opt_messages = Given None,
         opt_locale = Absent, opt_fallback = Absent\<rparr>) = None"
proof -
  have "importTranslations \<lparr>ctx_keys = [''./en.json''], ctx_resolve = id\<rparr>
        None (Some ''__global__'') ''en.__global__'' = Some ''./en.json''"
    by code_simp
  then show ?thesis
    by (simp add: install_messages prop_value_def)
qed

end
